theory Spec2Isabelle
  imports Complex_Main "HOL-Library.Word" "HOL-Library.Sublist"
begin

section \<open>Host values: strings and numbers\<close>

text \<open>
  The program is TypeScript. Its strings are sequences of UTF-16 code units and its
  numbers are IEEE doubles. A string is modelled as the list of its code units. A number
  is modelled by the rational it denotes, or one of the three non-finite values.
  Arithmetic is exact: rounding to the nearest double is not modelled. The two zeros are
  identified; they differ only as divisors, and the one division of the program, by the
  limit, takes a zero limit as +0.
\<close>

type_synonym jsstring = "16 word list"

definition ascii :: "string \<Rightarrow> jsstring" where
  "ascii s = map (\<lambda>c. of_char c) s"

datatype jsnum = NaN | NegInf | Fin rat | PosInf

text \<open>The operator \<open><\<close> on two numbers: false as soon as one operand is NaN.\<close>

fun num_lt :: "jsnum \<Rightarrow> jsnum \<Rightarrow> bool" where
  "num_lt NaN y = False"
| "num_lt x NaN = False"
| "num_lt (Fin a) (Fin b) = (a < b)"
| "num_lt NegInf NegInf = False"
| "num_lt NegInf y = True"
| "num_lt x NegInf = False"
| "num_lt PosInf y = False"
| "num_lt x PosInf = True"

text \<open>The operator \<open>===\<close> on two numbers: NaN is equal to nothing, itself included.\<close>

fun num_eq :: "jsnum \<Rightarrow> jsnum \<Rightarrow> bool" where
  "num_eq NaN y = False"
| "num_eq x NaN = False"
| "num_eq x y = (x = y)"

text \<open>
  The operator \<open><\<close> on two strings: the first code unit at which they differ decides,
  and a proper prefix is smaller.
\<close>

fun string_lt :: "jsstring \<Rightarrow> jsstring \<Rightarrow> bool" where
  "string_lt [] [] = False"
| "string_lt [] (y # ys) = True"
| "string_lt (x # xs) [] = False"
| "string_lt (x # xs) (y # ys) = (if x = y then string_lt xs ys else x < y)"

subsection \<open>Converting a string to a number\<close>

text \<open>
  When \<open><\<close> or \<open>>\<close> meets a number and a string, the host converts the string with
  StringToNumber: white space is trimmed; the empty string is 0; a decimal literal with
  optional sign, fraction and exponent, \<open>Infinity\<close>, and an unsigned binary, octal or
  hexadecimal integer literal have their value; every other string is NaN.
\<close>

definition isStrWhiteSpaceChar :: "16 word \<Rightarrow> bool" where
  "isStrWhiteSpaceChar c \<longleftrightarrow>
     c \<in> {0x9, 0xA, 0xB, 0xC, 0xD, 0x20, 0xA0, 0x1680, 0x2028, 0x2029, 0x202F, 0x205F,
          0x3000, 0xFEFF} \<or> (0x2000 \<le> c \<and> c \<le> 0x200A)"

definition trimString :: "jsstring \<Rightarrow> jsstring" where
  "trimString s = rev (dropWhile isStrWhiteSpaceChar (rev (dropWhile isStrWhiteSpaceChar s)))"

definition isDecimalDigit :: "16 word \<Rightarrow> bool" where
  "isDecimalDigit c \<longleftrightarrow> 0x30 \<le> c \<and> c \<le> 0x39"

text \<open>The value of a digit in a radix up to 16, None when the code unit is no such digit.\<close>

definition digitValue :: "nat \<Rightarrow> 16 word \<Rightarrow> nat option" where
  "digitValue radix c =
     (let v = (if 0x30 \<le> c \<and> c \<le> 0x39 then Some (unat c - 0x30)
               else if 0x61 \<le> c \<and> c \<le> 0x66 then Some (unat c - 0x61 + 10)
               else if 0x41 \<le> c \<and> c \<le> 0x46 then Some (unat c - 0x41 + 10)
               else None)
      in case v of None \<Rightarrow> None | Some d \<Rightarrow> if d < radix then Some d else None)"

text \<open>A non-empty run of digits of the radix as a natural number, None otherwise.\<close>

fun digitsValue :: "nat \<Rightarrow> nat \<Rightarrow> jsstring \<Rightarrow> nat option" where
  "digitsValue radix acc [] = Some acc"
| "digitsValue radix acc (c # cs) =
     (case digitValue radix c of
        None \<Rightarrow> None
      | Some d \<Rightarrow> digitsValue radix (radix * acc + d) cs)"

definition parseDigits :: "nat \<Rightarrow> jsstring \<Rightarrow> nat option" where
  "parseDigits radix s = (if s = [] then None else digitsValue radix 0 s)"

text \<open>ExponentPart: \<open>e\<close> or \<open>E\<close>, an optional sign, decimal digits. The empty rest is exponent 0.\<close>

definition parseExponent :: "jsstring \<Rightarrow> int option" where
  "parseExponent s =
     (case s of
        [] \<Rightarrow> Some 0
      | c # cs \<Rightarrow>
          if c = 0x65 \<or> c = 0x45 then
            (case cs of
               [] \<Rightarrow> None
             | d # ds \<Rightarrow>
                 if d = 0x2B then map_option int (parseDigits 10 ds)
                 else if d = 0x2D then map_option (\<lambda>n. - int n) (parseDigits 10 ds)
                 else map_option int (parseDigits 10 cs))
          else None)"

definition scale10 :: "rat \<Rightarrow> int \<Rightarrow> rat" where
  "scale10 m e = (if 0 \<le> e then m * 10 ^ nat e else m / 10 ^ nat (- e))"

text \<open>StrUnsignedDecimalLiteral without \<open>Infinity\<close>: digits, optional fraction, optional exponent.\<close>

definition parseUnsignedDecimal :: "jsstring \<Rightarrow> rat option" where
  "parseUnsignedDecimal s =
     (let ip = takeWhile isDecimalDigit s;
          r1 = dropWhile isDecimalDigit s;
          dot = (r1 \<noteq> [] \<and> hd r1 = 0x2E);
          fp = (if dot then takeWhile isDecimalDigit (tl r1) else []);
          r2 = (if dot then dropWhile isDecimalDigit (tl r1) else r1)
      in if ip = [] \<and> fp = [] then None
         else
           (case parseExponent r2 of
              None \<Rightarrow> None
            | Some e \<Rightarrow>
                (case (digitsValue 10 0 ip, digitsValue 10 0 fp) of
                   (Some i, Some f) \<Rightarrow>
                     Some (scale10 (of_nat i + of_nat f / 10 ^ length fp) e)
                 | _ \<Rightarrow> None)))"

definition parseStrDecimalLiteral :: "jsstring \<Rightarrow> jsnum" where
  "parseStrDecimalLiteral s =
     (let neg = (s \<noteq> [] \<and> hd s = 0x2D);
          body = (if s \<noteq> [] \<and> (hd s = 0x2B \<or> hd s = 0x2D) then tl s else s)
      in if body = ascii ''Infinity'' then (if neg then NegInf else PosInf)
         else
           (case parseUnsignedDecimal body of
              None \<Rightarrow> NaN
            | Some r \<Rightarrow> Fin (if neg then - r else r)))"

definition parseNonDecimalIntegerLiteral :: "jsstring \<Rightarrow> jsnum option" where
  "parseNonDecimalIntegerLiteral s =
     (case s of
        z # p # ds \<Rightarrow>
          if z \<noteq> 0x30 then None
          else
            (let radix = (if p = 0x78 \<or> p = 0x58 then Some (16::nat)
                          else if p = 0x6F \<or> p = 0x4F then Some 8
                          else if p = 0x62 \<or> p = 0x42 then Some 2
                          else None)
             in case radix of
                  None \<Rightarrow> None
                | Some r \<Rightarrow>
                    Some (case parseDigits r ds of None \<Rightarrow> NaN | Some n \<Rightarrow> Fin (of_nat n)))
      | _ \<Rightarrow> None)"

definition StringToNumber :: "jsstring \<Rightarrow> jsnum" where
  "StringToNumber str =
     (let s = trimString str
      in if s = [] then Fin 0
         else
           (case parseNonDecimalIntegerLiteral s of
              Some n \<Rightarrow> n
            | None \<Rightarrow> parseStrDecimalLiteral s))"

section \<open>The filter engine\<close>

text \<open>
  The types of the source: \<open>FilterClauseType\<close> is \<open>{id, condition, value}\<close>,
  \<open>HasIdWithValue\<close> is \<open>{id, value}\<close> and \<open>Submission\<close> is \<open>{questions}\<close>. A value is
  \<open>number | string\<close>. A submission carries more than its questions; the rest is opaque to
  the program and is the extension of the record.
\<close>

datatype jsvalue = Num jsnum | Str jsstring

datatype condition = equals | does_not_equal | greater_than | less_than_cond

record FilterClauseType =
  filter_id :: jsstring
  filter_condition :: condition
  filter_value :: jsvalue

record HasIdWithValue =
  question_id :: jsstring
  question_value :: jsvalue

record Submission =
  questions :: "HasIdWithValue list"

text \<open>\<open>a === b\<close>: no conversion, values of different types are never equal.\<close>

fun strict_equals :: "jsvalue \<Rightarrow> jsvalue \<Rightarrow> bool" where
  "strict_equals (Num a) (Num b) = num_eq a b"
| "strict_equals (Str s) (Str t) = (s = t)"
| "strict_equals (Num a) (Str t) = False"
| "strict_equals (Str s) (Num b) = False"

fun ToNumber :: "jsvalue \<Rightarrow> jsnum" where
  "ToNumber (Num a) = a"
| "ToNumber (Str s) = StringToNumber s"

text \<open>
  \<open>a < b\<close>: two strings are compared as strings; otherwise both operands are converted to
  numbers and compared as numbers. \<open>a > b\<close> is \<open>b < a\<close>.
\<close>

fun js_less :: "jsvalue \<Rightarrow> jsvalue \<Rightarrow> bool" where
  "js_less (Str s) (Str t) = string_lt s t"
| "js_less a b = num_lt (ToNumber a) (ToNumber b)"

definition js_greater :: "jsvalue \<Rightarrow> jsvalue \<Rightarrow> bool" where
  "js_greater a b = js_less b a"

text \<open>The \<open>switch\<close> of the filter block: the check pushed for a question and its condition.\<close>

definition check :: "FilterClauseType \<Rightarrow> HasIdWithValue \<Rightarrow> bool" where
  "check cond question =
     (case filter_condition cond of
        equals \<Rightarrow> strict_equals (question_value question) (filter_value cond)
      | does_not_equal \<Rightarrow> \<not> strict_equals (question_value question) (filter_value cond)
      | greater_than \<Rightarrow> js_greater (question_value question) (filter_value cond)
      | less_than_cond \<Rightarrow> js_less (question_value question) (filter_value cond))"

text \<open>
  \<open>conditions\<close> is a Map filled by \<open>filters.forEach(filter => conditions.set(filter.id, filter))\<close>:
  a later filter replaces an earlier one of the same id.
\<close>

definition conditionsOf :: "FilterClauseType list \<Rightarrow> (jsstring \<rightharpoonup> FilterClauseType)" where
  "conditionsOf filters =
     fold (\<lambda>filter conditions. conditions(filter_id filter \<mapsto> filter)) filters Map.empty"

text \<open>\<open>checks\<close>: one boolean for each question whose id has a condition, in order.\<close>

fun checksOf ::
  "(jsstring \<rightharpoonup> FilterClauseType) \<Rightarrow> HasIdWithValue list \<Rightarrow> bool list" where
  "checksOf conditions [] = []"
| "checksOf conditions (question # rest) =
     (case conditions (question_id question) of
        None \<Rightarrow> checksOf conditions rest
      | Some cond \<Rightarrow> check cond question # checksOf conditions rest)"

text \<open>\<open>Array.prototype.findIndex\<close>: the first index whose element satisfies the predicate, or -1.\<close>

fun findIndex :: "('a \<Rightarrow> bool) \<Rightarrow> 'a list \<Rightarrow> int" where
  "findIndex P [] = - 1"
| "findIndex P (x # xs) =
     (if P x then 0
      else (let i = findIndex P xs in if i = - 1 then - 1 else i + 1))"

text \<open>The callback of \<open>responses.filter\<close>.\<close>

definition keeps ::
  "(jsstring \<rightharpoonup> FilterClauseType) \<Rightarrow> 'a Submission_scheme \<Rightarrow> bool" where
  "keeps conditions response =
     (let checks = checksOf conditions (questions response);
          failed = findIndex (\<lambda>c. \<not> c) checks
      in failed = - 1)"

text \<open>
  The filter block. The query parameter \<open>filters\<close> is None when the request has none, and
  otherwise the validated array that \<open>JSON.parse\<close> returns.
\<close>

definition applyFilters ::
  "FilterClauseType list option \<Rightarrow> 'a Submission_scheme list \<Rightarrow> 'a Submission_scheme list" where
  "applyFilters filters responses =
     (case filters of
        None \<Rightarrow> responses
      | Some fs \<Rightarrow> filter (keeps (conditionsOf fs)) responses)"

section \<open>The result cache\<close>

text \<open>
  The module-level \<open>cache\<close> (a Map from key to dataset) and \<open>queue\<close> (the keys in insertion
  order) are the state of the program; \<open>cacheData\<close> is the only code that writes them.
\<close>

record 'v Store =
  cache :: "jsstring \<rightharpoonup> 'v"
  queue :: "jsstring list"

definition maxLen :: nat where
  "maxLen = 10"

definition initialStore :: "'v Store" where
  "initialStore = \<lparr>cache = Map.empty, queue = []\<rparr>"

definition cacheData :: "jsstring \<Rightarrow> 'v \<Rightarrow> 'v Store \<Rightarrow> 'v Store" where
  "cacheData key responses st =
     (let st1 =
            (if length (queue st) = maxLen
             then (let oldestResponse = hd (queue st)
                   in \<lparr>cache = (cache st)(oldestResponse := None), queue = tl (queue st)\<rparr>)
             else st)
      in \<lparr>cache = (cache st1)(key \<mapsto> responses), queue = queue st1 @ [key]\<rparr>)"

text \<open>A run of calls of \<open>cacheData\<close>, oldest first.\<close>

fun cacheAll :: "(jsstring \<times> 'v) list \<Rightarrow> 'v Store \<Rightarrow> 'v Store" where
  "cacheAll [] st = st"
| "cacheAll ((key, responses) # puts) st = cacheAll puts (cacheData key responses st)"

section \<open>The cache key\<close>

text \<open>
  \<open>createHash\<close> is \<open>JSON.stringify\<close>, applied to \<open>{formId, afterDate, beforeDate, status,
  includeEditLink, sort}\<close>. An object is modelled by its properties in creation order; a
  property whose value is \<open>undefined\<close> (None) is left out of the text. A validated query
  parameter is a string.
\<close>

definition hexDigit :: "nat \<Rightarrow> 16 word" where
  "hexDigit n = (if n < 10 then 0x30 + of_nat n else 0x61 + of_nat (n - 10))"

definition unicodeEscape :: "16 word \<Rightarrow> jsstring" where
  "unicodeEscape c =
     [0x5C, 0x75, hexDigit (unat c div 4096), hexDigit (unat c div 256 mod 16),
      hexDigit (unat c div 16 mod 16), hexDigit (unat c mod 16)]"

definition quoteUnit :: "16 word \<Rightarrow> jsstring" where
  "quoteUnit c =
     (if c = 0x8 then [0x5C, 0x62]
      else if c = 0x9 then [0x5C, 0x74]
      else if c = 0xA then [0x5C, 0x6E]
      else if c = 0xC then [0x5C, 0x66]
      else if c = 0xD then [0x5C, 0x72]
      else if c = 0x22 then [0x5C, 0x22]
      else if c = 0x5C then [0x5C, 0x5C]
      else if c < 0x20 \<or> (0xD800 \<le> c \<and> c \<le> 0xDFFF) then unicodeEscape c
      else [c])"

text \<open>A surrogate pair is one code point and is copied; a lone surrogate is escaped.\<close>

fun quoteUnits :: "jsstring \<Rightarrow> jsstring" where
  "quoteUnits [] = []"
| "quoteUnits [c] = quoteUnit c"
| "quoteUnits (c # d # cs) =
     (if 0xD800 \<le> c \<and> c \<le> 0xDBFF \<and> 0xDC00 \<le> d \<and> d \<le> 0xDFFF
      then c # d # quoteUnits cs
      else quoteUnit c @ quoteUnits (d # cs))"

definition QuoteJSONString :: "jsstring \<Rightarrow> jsstring" where
  "QuoteJSONString s = [0x22] @ quoteUnits s @ [0x22]"

fun joinWith :: "jsstring \<Rightarrow> jsstring list \<Rightarrow> jsstring" where
  "joinWith sep [] = []"
| "joinWith sep [x] = x"
| "joinWith sep (x # y # ys) = x @ sep @ joinWith sep (y # ys)"

fun members :: "(jsstring \<times> jsstring option) list \<Rightarrow> jsstring list" where
  "members [] = []"
| "members ((k, None) # ps) = members ps"
| "members ((k, Some v) # ps) = (QuoteJSONString k @ [0x3A] @ QuoteJSONString v) # members ps"

definition JSON_stringify :: "(jsstring \<times> jsstring option) list \<Rightarrow> jsstring" where
  "JSON_stringify obj = [0x7B] @ joinWith [0x2C] (members obj) @ [0x7D]"

definition createHash :: "(jsstring \<times> jsstring option) list \<Rightarrow> jsstring" where
  "createHash params = JSON_stringify params"

section \<open>The request handler\<close>

text \<open>
  A request that passed validation: the path parameter, and the query parameters, each
  absent (None) or present. \<open>query_filters\<close> is what \<open>JSON.parse\<close> returns for the
  validated string, \<open>query_offset\<close> and \<open>query_limit\<close> what \<open>parseInt\<close> returns.
\<close>

record Request =
  params_formId :: jsstring
  query_afterDate :: "jsstring option"
  query_beforeDate :: "jsstring option"
  query_status :: "jsstring option"
  query_includeEditLink :: "jsstring option"
  query_sort :: "jsstring option"
  query_filters :: "FilterClauseType list option"
  query_offset :: "int option"
  query_limit :: "int option"

text \<open>The object \<open>params\<close> of the handler.\<close>

definition paramsOf :: "Request \<Rightarrow> (jsstring \<times> jsstring option) list" where
  "paramsOf req =
     [(ascii ''afterDate'', query_afterDate req),
      (ascii ''beforeDate'', query_beforeDate req),
      (ascii ''status'', query_status req),
      (ascii ''includeEditLink'', query_includeEditLink req),
      (ascii ''sort'', query_sort req)]"

definition keyOf :: "Request \<Rightarrow> jsstring" where
  "keyOf req = createHash ((ascii ''formId'', Some (params_formId req)) # paramsOf req)"

text \<open>
  The body of a successful response of the remote API (\<open>resp.data\<close>). The remote API is
  a parameter of the model: for the form and \<open>params\<close> of a request, a function from the
  offset asked for to the body, or to None when the awaited call throws (a network error,
  a status that is not a success, a body whose \<open>responses\<close> cannot be spread). A body
  without a numeric \<open>pageCount\<close> compares like NaN.
\<close>

record 'a ApiData =
  data_responses :: "'a list"
  data_pageCount :: jsnum

type_synonym 'a Remote = "jsstring \<Rightarrow> (jsstring \<times> jsstring option) list \<Rightarrow> int \<Rightarrow> 'a ApiData option"

definition getPage :: "'a Remote \<Rightarrow> Request \<Rightarrow> int \<Rightarrow> 'a ApiData option" where
  "getPage remote req offset = remote (params_formId req) (paramsOf req) offset"

datatype error = RequestFailed

text \<open>
  The \<open>while\<close> loop. It may run forever, so the model returns an option, and None is a
  loop that never ends. \<open>requested\<close> records the offsets asked of the remote API, in order:
  the network calls are the effect of the loop. \<open>offset\<close> only takes the values 0, 150,
  300, ... and is an integer.
\<close>

partial_function (option) fetchLoop ::
  "(int \<Rightarrow> 'a ApiData option) \<Rightarrow> int list \<Rightarrow> 'a list \<Rightarrow> int \<Rightarrow> jsnum \<Rightarrow>
     ((error + 'a list) \<times> int list) option" where
  "fetchLoop page requested responses offset totalPages =
     (if num_lt (Fin (of_int offset)) totalPages then
        (case page offset of
           None \<Rightarrow> Some (Inl RequestFailed, requested @ [offset])
         | Some resp \<Rightarrow>
             fetchLoop page (requested @ [offset]) (responses @ data_responses resp)
               (offset + 150) (data_pageCount resp))
      else Some (Inr responses, requested))"

text \<open>The loop from its initial state: \<open>responses = []\<close>, \<open>offset = 0\<close>, \<open>totalPages = +Infinity\<close>.\<close>

definition fetchAll ::
  "(int \<Rightarrow> 'a ApiData option) \<Rightarrow> ((error + 'a list) \<times> int list) option" where
  "fetchAll page = fetchLoop page [] [] 0 PosInf"

subsection \<open>Windowing\<close>

text \<open>\<open>Array.prototype.slice(start, end)\<close>: a negative index counts from the end.\<close>

definition slice :: "'a list \<Rightarrow> int \<Rightarrow> int \<Rightarrow> 'a list" where
  "slice xs start end' =
     (let len = int (length xs);
          k = (if start < 0 then max (len + start) 0 else min start len);
          final = (if end' < 0 then max (len + end') 0 else min end' len)
      in take (nat (final - k)) (drop (nat k) xs))"

text \<open>The operator \<open>/\<close> on two numbers, and \<open>Math.ceil\<close>.\<close>

fun num_div :: "jsnum \<Rightarrow> jsnum \<Rightarrow> jsnum" where
  "num_div (Fin a) (Fin b) =
     (if b \<noteq> 0 then Fin (a / b) else if a = 0 then NaN else if 0 < a then PosInf else NegInf)"
| "num_div (Fin a) PosInf = Fin 0"
| "num_div (Fin a) NegInf = Fin 0"
| "num_div PosInf (Fin b) = (if 0 \<le> b then PosInf else NegInf)"
| "num_div NegInf (Fin b) = (if 0 \<le> b then NegInf else PosInf)"
| "num_div x y = NaN"

fun Math_ceil :: "jsnum \<Rightarrow> jsnum" where
  "Math_ceil (Fin r) = Fin (of_int \<lceil>r\<rceil>)"
| "Math_ceil x = x"

record 'a Payload =
  payload_responses :: "'a list"
  payload_totalResponses :: nat
  payload_pageCount :: jsnum

datatype 'a Reply = Send "'a Payload" | Json_error jsstring

text \<open>
  The window: \<open>resOffset\<close> and \<open>resLimit\<close> with their defaults, and the object given to
  \<open>res.send\<close> for the filtered \<open>responses\<close>.
\<close>

definition window :: "Request \<Rightarrow> 'a list \<Rightarrow> 'a Payload" where
  "window req responses =
     (let resOffset = (case query_offset req of None \<Rightarrow> 0 | Some n \<Rightarrow> n);
          resLimit = (case query_limit req of None \<Rightarrow> 150 | Some n \<Rightarrow> n)
      in \<lparr>payload_responses = slice responses resOffset (resLimit + resOffset),
          payload_totalResponses = length responses,
          payload_pageCount =
            Math_ceil (num_div (Fin (of_nat (length responses))) (Fin (of_int resLimit)))\<rparr>)"

text \<open>The filter block, then the window.\<close>

definition respond :: "Request \<Rightarrow> 'a Submission_scheme list \<Rightarrow> 'a Submission_scheme Payload" where
  "respond req fetched = window req (applyFilters (query_filters req) fetched)"

text \<open>
  The handler of \<open>GET /:formId/filteredResponses\<close> after validation: the reply and the
  state it leaves, or None when the fetch loop never ends.
\<close>

definition handler ::
  "'a Submission_scheme Remote \<Rightarrow> Request \<Rightarrow> 'a Submission_scheme list Store \<Rightarrow>
     ('a Submission_scheme Reply \<times> 'a Submission_scheme list Store) option" where
  "handler remote req st =
     (let key = keyOf req
      in case cache st key of
           Some cached \<Rightarrow> Some (Send (respond req cached), st)
         | None \<Rightarrow>
             (case fetchAll (getPage remote req) of
                None \<Rightarrow> None
              | Some (Inl e, requested) \<Rightarrow> Some (Json_error (ascii ''Request failed!''), st)
              | Some (Inr responses, requested) \<Rightarrow>
                  Some (Send (respond req responses), cacheData key responses st)))"

section \<open>What the specification says, and the inputs used below\<close>

text \<open>
  The specification of the filter engine, in its words: a condition holds for a record
  when every Question Answer of the record with the condition's id passes its comparison,
  and a record is kept when every condition of the Filter Set whose id matches some
  Question Answer of the record holds for it.
\<close>

definition holdsFor :: "FilterClauseType \<Rightarrow> 'a Submission_scheme \<Rightarrow> bool" where
  "holdsFor cond response \<longleftrightarrow>
     (\<forall>question \<in> set (questions response).
        question_id question = filter_id cond \<longrightarrow> check cond question)"

definition specKeeps :: "FilterClauseType list \<Rightarrow> 'a Submission_scheme \<Rightarrow> bool" where
  "specKeeps filters response \<longleftrightarrow>
     (\<forall>cond \<in> set filters.
        (\<exists>question \<in> set (questions response). question_id question = filter_id cond) \<longrightarrow>
        holdsFor cond response)"

text \<open>
  A Filter Set with two conditions on the same question, \<open>q1 > 5\<close> and \<open>q1 < 10\<close>, and a
  submission that answers 3 to \<open>q1\<close>.
\<close>

definition greaterThan5 :: FilterClauseType where
  "greaterThan5 =
     \<lparr>filter_id = ascii ''q1'', filter_condition = greater_than, filter_value = Num (Fin 5)\<rparr>"

definition lessThan10 :: FilterClauseType where
  "lessThan10 =
     \<lparr>filter_id = ascii ''q1'', filter_condition = less_than_cond, filter_value = Num (Fin 10)\<rparr>"

definition questionThree :: HasIdWithValue where
  "questionThree = \<lparr>question_id = ascii ''q1'', question_value = Num (Fin 3)\<rparr>"

definition answerThree :: Submission where
  "answerThree = \<lparr>questions = [questionThree]\<rparr>"

text \<open>
  Modelled from the spec: the remote paged API, a service outside the repository. It
  holds a dataset in pages of 150 records; asked for an offset it answers with the records
  from that offset, at most 150, and with the total page count.
\<close>

definition pageCountOf :: "'a list \<Rightarrow> nat" where
  "pageCountOf dataset = (length dataset + 149) div 150"

definition pagesOf :: "'a list \<Rightarrow> 'a list list" where
  "pagesOf dataset = map (\<lambda>i. take 150 (drop (150 * i) dataset)) [0..<pageCountOf dataset]"

definition remoteOf :: "'a list \<Rightarrow> int \<Rightarrow> 'a ApiData option" where
  "remoteOf dataset offset =
     Some \<lparr>data_responses = take 150 (drop (nat offset) dataset),
           data_pageCount = Fin (of_nat (pageCountOf dataset))\<rparr>"

text \<open>A dataset of 151 submissions: two pages.\<close>

definition submissionNo :: "nat \<Rightarrow> Submission" where
  "submissionNo i =
     \<lparr>questions = [\<lparr>question_id = ascii ''no'', question_value = Num (Fin (of_nat i))\<rparr>]\<rparr>"

definition dataset151 :: "Submission list" where
  "dataset151 = map submissionNo [0..<151]"



text \<open>The states the program can reach: \<open>cacheData\<close> is the only writer of the store.\<close>

inductive reachable :: "'v Store \<Rightarrow> bool" where
  initial: "reachable initialStore"
| cached: "reachable st \<Longrightarrow> reachable (cacheData key responses st)"

text \<open>The invariant of the store.\<close>

definition storeInv :: "'v Store \<Rightarrow> bool" where
  "storeInv st \<longleftrightarrow> dom (cache st) \<subseteq> set (queue st) \<and> length (queue st) \<le> maxLen"

text \<open>
  Ten calls of \<open>cacheData\<close> with ten different keys, \<open>a\<close> to \<open>j\<close>; and ten calls in which
  the key \<open>a\<close> comes twice, followed by \<open>b\<close> to \<open>i\<close>.
\<close>

definition tenKeys :: "jsstring list" where
  "tenKeys = map (\<lambda>c. [c]) [0x61, 0x62, 0x63, 0x64, 0x65, 0x66, 0x67, 0x68, 0x69, 0x6A]"

definition tenPuts :: "(jsstring \<times> Submission list) list" where
  "tenPuts = map (\<lambda>k. (k, [answerThree])) tenKeys"

definition repeatedPuts :: "(jsstring \<times> Submission list) list" where
  "repeatedPuts = ([0x61], []) # butlast tenPuts"

text \<open>
  Two requests with the same Query Identity that differ in \<open>filters\<close>, \<open>offset\<close> and
  \<open>limit\<close>.
\<close>

definition requestA :: Request where
  "requestA =
     \<lparr>params_formId = ascii ''f1'', query_afterDate = None, query_beforeDate = None,
      query_status = Some (ascii ''finished''), query_includeEditLink = None,
      query_sort = None, query_filters = None, query_offset = None, query_limit = None\<rparr>"

definition requestB :: Request where
  "requestB =
     requestA\<lparr>query_filters := Some [greaterThan5], query_offset := Some 2, query_limit := Some 1\<rparr>"




text \<open>
  A remote API whose second page fails, and one that answers every request with one
  record and the page count 301.
\<close>

definition failingRemote :: "Submission Remote" where
  "failingRemote formId params offset =
     (if offset = 150 then None
      else Some \<lparr>data_responses = [answerThree], data_pageCount = Fin 301\<rparr>)"


section \<open>Properties of the filter engine\<close>


lemma findIndex_none: "findIndex P xs = - 1 \<longleftrightarrow> (\<forall>x\<in>set xs. \<not> P x)"
proof (induction xs)
  case Nil
  show ?case by simp
next
  case (Cons x xs)
  have "0 \<le> findIndex P xs \<or> findIndex P xs = - 1"
    by (induction xs) (auto simp: Let_def)
  with Cons show ?case by (auto simp: Let_def)
qed

lemma keeps_iff:
  "keeps conditions response \<longleftrightarrow> False \<notin> set (checksOf conditions (questions response))"
  unfolding keeps_def Let_def findIndex_none by (metis (full_types))

lemma set_checksOf:
  "set (checksOf conditions qs) =
     {check cond q | cond q. q \<in> set qs \<and> conditions (question_id q) = Some cond}"
  by (induction qs) (auto split: option.splits)

lemma conditionsOf_snoc: "conditionsOf (fs @ [f]) = (conditionsOf fs)(filter_id f \<mapsto> f)"
  by (simp add: conditionsOf_def)

lemma conditionsOf_distinct:
  "distinct (map filter_id fs) \<Longrightarrow>
     conditionsOf fs i = Some c \<longleftrightarrow> c \<in> set fs \<and> filter_id c = i"
proof (induction fs rule: rev_induct)
  case Nil
  then show ?case by (simp add: conditionsOf_def)
next
  case (snoc f fs)
  then have d: "distinct (map filter_id fs)" and n: "filter_id f \<notin> filter_id ` set fs"
    by simp_all
  show ?case
  proof (cases "i = filter_id f")
    case True
    have "c \<in> set fs \<Longrightarrow> filter_id c \<noteq> filter_id f" for c
      using n by (metis imageI)
    with True show ?thesis by (auto simp: conditionsOf_snoc)
  next
    case False
    with snoc.IH [OF d] show ?thesis by (auto simp: conditionsOf_snoc)
  qed
qed

text \<open>
  When no two conditions of the Filter Set share an id, the filter callback is the
  specification's conjunction.
\<close>

lemma keeps_distinct_ids:
  assumes "distinct (map filter_id fs)"
  shows "keeps (conditionsOf fs) response \<longleftrightarrow> specKeeps fs response"
proof
  assume k: "keeps (conditionsOf fs) response"
  show "specKeeps fs response"
    unfolding specKeeps_def holdsFor_def
  proof (intro ballI impI)
    fix cond question
    assume "cond \<in> set fs" "question \<in> set (questions response)"
      "question_id question = filter_id cond"
    then have "conditionsOf fs (question_id question) = Some cond"
      using conditionsOf_distinct [OF assms] by simp
    with \<open>question \<in> set (questions response)\<close>
    have "check cond question \<in> set (checksOf (conditionsOf fs) (questions response))"
      unfolding set_checksOf by blast
    with k show "check cond question" unfolding keeps_iff by (metis (full_types))
  qed
next
  assume s: "specKeeps fs response"
  show "keeps (conditionsOf fs) response"
    unfolding keeps_iff set_checksOf
  proof
    assume "False \<in> {check cond q |cond q.
      q \<in> set (questions response) \<and> conditionsOf fs (question_id q) = Some cond}"
    then obtain cond q where c: "\<not> check cond q" and q: "q \<in> set (questions response)"
      and m: "conditionsOf fs (question_id q) = Some cond" by auto
    from m have "cond \<in> set fs" "filter_id cond = question_id q"
      using conditionsOf_distinct [OF assms] by simp_all
    with s q have "check cond q"
      unfolding specKeeps_def holdsFor_def by metis
    with c show False by simp
  qed
qed

lemma checksOf_empty: "checksOf Map.empty qs = []"
  by (induction qs) simp_all

lemma applyFilters_empty: "applyFilters (Some []) D = D"
  by (simp add: applyFilters_def keeps_def conditionsOf_def checksOf_empty)

lemma applyFilters_subseq: "subseq (applyFilters F D) D"
  by (cases F) (simp_all add: applyFilters_def)

text \<open>
  C2. The specification keeps a record iff every condition of the Filter Set whose id
  matches one of its Question Answers holds. The filter block keys its conditions by id,
  so of two conditions on the same question only the last is evaluated: with the Filter
  Set \<open>q1 > 5\<close>, \<open>q1 < 10\<close>, the record that answers 3 matches the first condition by id,
  fails its comparison, and is kept all the same.
\<close>

theorem filter_same_id_keeps_failing_record:
  "filter_id greaterThan5 = question_id questionThree
   \<and> \<not> check greaterThan5 questionThree
   \<and> applyFilters (Some [greaterThan5, lessThan10]) [answerThree] = [answerThree]"
  by (simp add: applyFilters_def keeps_def conditionsOf_def js_greater_def check_def
      greaterThan5_def lessThan10_def questionThree_def answerThree_def)

text \<open>The specification's predicate rejects that record.\<close>

lemma specKeeps_rejects_answerThree: "\<not> specKeeps [greaterThan5, lessThan10] answerThree"
  by (simp add: specKeeps_def holdsFor_def js_greater_def check_def
      greaterThan5_def lessThan10_def questionThree_def answerThree_def)

text \<open>
  C8. The filtered dataset is a subsequence of the dataset: a subset of its records in
  their order. The empty Filter Set and the absent one leave the dataset as it is.
\<close>

theorem filter_subsequence_identity:
  "subseq (applyFilters F D) D \<and> applyFilters (Some []) D = D \<and> applyFilters None D = D"
  by (simp add: applyFilters_empty applyFilters_subseq) (simp add: applyFilters_def)





section \<open>Properties of the result cache\<close>

lemma cacheData_queue:
  "queue (cacheData key v st) =
     (if length (queue st) = maxLen then tl (queue st) else queue st) @ [key]"
  by (simp add: cacheData_def Let_def)

lemma cacheData_cache:
  "cache (cacheData key v st) =
     (if length (queue st) = maxLen then (cache st)(hd (queue st) := None) else cache st)
       (key \<mapsto> v)"
  by (simp add: cacheData_def Let_def)

lemma storeInv_initial: "storeInv initialStore"
  by (simp add: storeInv_def initialStore_def)

lemma storeInv_cacheData:
  assumes "storeInv st"
  shows "storeInv (cacheData key v st)"
proof (cases "length (queue st) = maxLen")
  case True
  then have ne: "queue st \<noteq> []" by (auto simp: maxLen_def)
  then have "set (queue st) = insert (hd (queue st)) (set (tl (queue st)))"
    by (cases "queue st") auto
  with assms True show ?thesis
    by (auto simp: storeInv_def cacheData_queue cacheData_cache maxLen_def split: if_splits)
next
  case False
  with assms show ?thesis
    by (auto simp: storeInv_def cacheData_queue cacheData_cache split: if_splits)
qed

lemma reachable_storeInv: "reachable st \<Longrightarrow> storeInv st"
  by (induction rule: reachable.induct) (simp_all add: storeInv_initial storeInv_cacheData)

lemma reachable_cacheAll: "reachable st \<Longrightarrow> reachable (cacheAll puts st)"
  by (induction puts st rule: cacheAll.induct) (simp_all add: reachable.cached)

lemma cacheAll_snoc: "cacheAll (puts @ [(key, v)]) st = cacheData key v (cacheAll puts st)"
  by (induction puts st rule: cacheAll.induct) simp_all

text \<open>The reachable states are the states after a run of insertions.\<close>

lemma reachable_iff_cacheAll: "reachable st \<longleftrightarrow> (\<exists>puts. st = cacheAll puts initialStore)"
proof
  assume "reachable st"
  then show "\<exists>puts. st = cacheAll puts initialStore"
  proof (induction rule: reachable.induct)
    case initial
    have "initialStore = cacheAll [] initialStore" by simp
    then show ?case ..
  next
    case (cached st key responses)
    then obtain puts where "st = cacheAll puts initialStore" by blast
    then have "cacheData key responses st = cacheAll (puts @ [(key, responses)]) initialStore"
      by (simp add: cacheAll_snoc)
    then show ?case ..
  qed
next
  assume "\<exists>puts. st = cacheAll puts initialStore"
  then show "reachable st" using reachable_cacheAll [OF reachable.initial] by auto
qed

lemma storeInv_card:
  assumes "storeInv st"
  shows "finite (dom (cache st)) \<and> card (dom (cache st)) \<le> maxLen"
proof -
  from assms have sub: "dom (cache st) \<subseteq> set (queue st)" and len: "length (queue st) \<le> maxLen"
    by (simp_all add: storeInv_def)
  from sub have fin: "finite (dom (cache st))" by (rule finite_subset) simp
  have "card (dom (cache st)) \<le> card (set (queue st))" using sub by (simp add: card_mono)
  also have "\<dots> \<le> length (queue st)" by (rule card_length)
  finally show ?thesis using fin len by simp
qed

text \<open>The queue is the end of the list of all keys inserted so far.\<close>

lemma queue_suffix_of_history:
  "\<exists>pre. map fst puts = pre @ queue (cacheAll puts initialStore)"
proof (induction puts rule: rev_induct)
  case Nil
  show ?case by (simp add: initialStore_def)
next
  case (snoc p puts)
  obtain key v where p: "p = (key, v)" by (cases p)
  from snoc obtain pre where pre: "map fst puts = pre @ queue (cacheAll puts initialStore)" ..
  let ?q = "queue (cacheAll puts initialStore)"
  show ?case
  proof (cases "length ?q = maxLen")
    case True
    then have "?q = hd ?q # tl ?q" by (cases ?q) (auto simp: maxLen_def)
    then have "map fst (puts @ [p]) = (pre @ [hd ?q]) @ tl ?q @ [key]"
      using pre p by simp
    with True show ?thesis unfolding p cacheAll_snoc cacheData_queue by simp
  next
    case False
    then show ?thesis using pre unfolding p cacheAll_snoc cacheData_queue by simp
  qed
qed

lemma full_cache_queue:
  assumes "storeInv st" and "card (dom (cache st)) = maxLen"
  shows "distinct (queue st) \<and> set (queue st) = dom (cache st) \<and> length (queue st) = maxLen"
proof -
  from assms have sub: "dom (cache st) \<subseteq> set (queue st)" and len: "length (queue st) \<le> maxLen"
    by (simp_all add: storeInv_def)
  have c1: "card (dom (cache st)) \<le> card (set (queue st))" using sub by (simp add: card_mono)
  have c2: "card (set (queue st)) \<le> length (queue st)" by (rule card_length)
  from c1 c2 len assms(2) have eq: "card (set (queue st)) = length (queue st)"
    and l: "length (queue st) = maxLen" and ce: "card (dom (cache st)) = card (set (queue st))" by simp_all
  from eq have "distinct (queue st)" by (rule card_distinct)
  moreover have "set (queue st) = dom (cache st)"
    using card_subset_eq [OF finite_set sub ce] by simp
  ultimately show ?thesis using l by simp
qed

lemma handler_hit:
  "cache st (keyOf req) = Some cached \<Longrightarrow>
     handler remote req st = Some (Send (respond req cached), st)"
  by (simp add: handler_def Let_def)

text \<open>The handler writes the store through \<open>cacheData\<close> only.\<close>

lemma handler_reachable:
  assumes "reachable st" and "handler remote req st = Some (reply, st')"
  shows "reachable st'"
proof (cases "cache st (keyOf req)")
  case (Some cached)
  with assms show ?thesis by (simp add: handler_def Let_def)
next
  case None
  with assms show ?thesis
    by (auto simp: handler_def Let_def reachable.cached
        split: option.splits sum.splits prod.splits)
qed

text \<open>
  C4. After any run of insertions the cache holds at most 10 entries. When it holds 10
  and \<open>cacheData\<close> is called, exactly one entry leaves it before the new one is stored:
  the one whose most recent insertion is the earliest among the entries held (every other
  held key was inserted after it). A cache hit leaves the store as it is.
\<close>

theorem cache_fifo_eviction:
  "finite (dom (cache (cacheAll puts initialStore)))
   \<and> card (dom (cache (cacheAll puts initialStore))) \<le> maxLen
   \<and> (card (dom (cache (cacheAll puts initialStore))) = maxLen \<longrightarrow>
        (\<exists>oldest pre post.
           oldest \<in> dom (cache (cacheAll puts initialStore))
           \<and> map fst puts = pre @ oldest # post
           \<and> oldest \<notin> set post
           \<and> dom (cache (cacheAll puts initialStore)) - {oldest} \<subseteq> set post
           \<and> cache (cacheData key responses (cacheAll puts initialStore)) =
               ((cache (cacheAll puts initialStore))(oldest := None))(key \<mapsto> responses)))
   \<and> (\<forall>cached. cache (cacheAll puts initialStore) (keyOf req) = Some cached \<longrightarrow>
        handler remote req (cacheAll puts initialStore) =
          Some (Send (respond req cached), cacheAll puts initialStore))"
proof -
  let ?st = "cacheAll puts initialStore"
  have inv: "storeInv ?st"
    by (rule reachable_storeInv) (rule reachable_cacheAll, rule reachable.initial)
  have fifo: "\<exists>oldest pre post.
           oldest \<in> dom (cache ?st) \<and> map fst puts = pre @ oldest # post \<and> oldest \<notin> set post
           \<and> dom (cache ?st) - {oldest} \<subseteq> set post
           \<and> cache (cacheData key responses ?st) = ((cache ?st)(oldest := None))(key \<mapsto> responses)"
    if full: "card (dom (cache ?st)) = maxLen"
  proof -
    from full_cache_queue [OF inv full]
    have d: "distinct (queue ?st)" and s: "set (queue ?st) = dom (cache ?st)"
      and l: "length (queue ?st) = maxLen" by simp_all
    from l have q: "queue ?st = hd (queue ?st) # tl (queue ?st)"
      by (cases "queue ?st") (auto simp: maxLen_def)
    obtain pre where pre: "map fst puts = pre @ queue ?st"
      using queue_suffix_of_history by blast
    have 1: "hd (queue ?st) \<in> dom (cache ?st)"
      using s list.set_intros(1) [of "hd (queue ?st)" "tl (queue ?st)"] q by simp
    have 2: "map fst puts = pre @ hd (queue ?st) # tl (queue ?st)" using pre q by simp
    have 3: "hd (queue ?st) \<notin> set (tl (queue ?st))"
      using d distinct.simps(2) [of "hd (queue ?st)" "tl (queue ?st)"] q by simp
    have 4: "dom (cache ?st) - {hd (queue ?st)} \<subseteq> set (tl (queue ?st))"
      using s list.simps(15) [of "hd (queue ?st)" "tl (queue ?st)"] q by auto
    have 5: "cache (cacheData key responses ?st) =
        ((cache ?st)(hd (queue ?st) := None))(key \<mapsto> responses)"
      using l by (simp add: cacheData_cache)
    from 1 2 3 4 5 show ?thesis by (intro exI conjI)
  qed
  have hit: "\<forall>cached. cache ?st (keyOf req) = Some cached \<longrightarrow>
        handler remote req ?st = Some (Send (respond req cached), ?st)"
    by (simp add: handler_hit)
  from storeInv_card [OF inv] fifo hit show ?thesis by (intro conjI impI) simp_all
qed


text \<open>Ten insertions under ten keys fill the cache; the eleventh evicts the key \<open>a\<close>.\<close>

lemma tenPuts_store:
  "cacheAll tenPuts initialStore =
     \<lparr>cache = [[0x61] \<mapsto> [answerThree], [0x62] \<mapsto> [answerThree], [0x63] \<mapsto> [answerThree],
               [0x64] \<mapsto> [answerThree], [0x65] \<mapsto> [answerThree], [0x66] \<mapsto> [answerThree],
               [0x67] \<mapsto> [answerThree], [0x68] \<mapsto> [answerThree], [0x69] \<mapsto> [answerThree],
               [0x6A] \<mapsto> [answerThree]],
      queue = tenKeys\<rparr>"
  by (simp add: tenPuts_def tenKeys_def initialStore_def cacheData_def maxLen_def)

lemma tenPuts_full: "card (dom (cache (cacheAll tenPuts initialStore))) = maxLen"
  by (simp add: tenPuts_store maxLen_def)

theorem cache_fifo_eviction_witness:
  "card (dom (cache (cacheAll tenPuts initialStore))) = maxLen
   \<and> (\<exists>oldest pre post.
           oldest \<in> dom (cache (cacheAll tenPuts initialStore))
           \<and> map fst tenPuts = pre @ oldest # post
           \<and> oldest \<notin> set post
           \<and> dom (cache (cacheAll tenPuts initialStore)) - {oldest} \<subseteq> set post
           \<and> cache (cacheData [0x6B] [] (cacheAll tenPuts initialStore)) =
               ((cache (cacheAll tenPuts initialStore))(oldest := None))([0x6B] \<mapsto> []))"
  using cache_fifo_eviction [of tenPuts "[0x6B]" "[]"] tenPuts_full by blast

text \<open>
  C10. In every reachable state each key of the cache is in the queue, the queue has at
  most 10 keys, and so the cache has at most 10 entries. \<open>cacheData\<close> appends its key
  whether or not the key is already queued, so a key that is present takes one more slot;
  and when the queue is full the key at its head loses its cache entry, even if that key
  is queued again further on.
\<close>

theorem store_invariant:
  "reachable st \<Longrightarrow>
     dom (cache st) \<subseteq> set (queue st)
     \<and> length (queue st) \<le> maxLen
     \<and> card (dom (cache st)) \<le> maxLen
     \<and> queue (cacheData key responses st) =
         (if length (queue st) = maxLen then tl (queue st) else queue st) @ [key]
     \<and> (length (queue st) < maxLen \<or> hd (queue st) \<noteq> key \<longrightarrow>
          count_list (queue (cacheData key responses st)) key = Suc (count_list (queue st) key))
     \<and> (length (queue st) = maxLen \<and> hd (queue st) \<noteq> key \<longrightarrow>
          cache (cacheData key responses st) (hd (queue st)) = None)
     \<and> reachable (cacheData key responses st)"
proof -
  assume r: "reachable st"
  then have inv: "storeInv st" by (rule reachable_storeInv)
  have cnt: "count_list (queue (cacheData key responses st)) key = Suc (count_list (queue st) key)"
    if "length (queue st) < maxLen \<or> hd (queue st) \<noteq> key"
  proof (cases "length (queue st) = maxLen")
    case True
    then have q: "queue st = hd (queue st) # tl (queue st)"
      by (cases "queue st") (auto simp: maxLen_def)
    from True that have "hd (queue st) \<noteq> key" by simp
    then have "count_list (queue st) key = count_list (tl (queue st)) key"
      using count_list.simps(2) [of "hd (queue st)" "tl (queue st)" key] q by simp
    with True show ?thesis by (simp add: cacheData_queue)
  next
    case False
    then show ?thesis by (simp add: cacheData_queue)
  qed
  have del: "cache (cacheData key responses st) (hd (queue st)) = None"
    if "length (queue st) = maxLen \<and> hd (queue st) \<noteq> key"
    using that by (simp add: cacheData_cache)
  from inv storeInv_card [OF inv] cnt del reachable.cached [OF r] show ?thesis
    by (simp add: storeInv_def cacheData_queue)
qed

text \<open>
  With \<open>a\<close> inserted twice the queue is full while the cache holds nine entries; the next
  insertion removes the entry of \<open>a\<close>, and \<open>a\<close> is still queued.
\<close>

lemma repeatedPuts_store:
  "cacheAll repeatedPuts initialStore =
     \<lparr>cache = [[0x61] \<mapsto> [answerThree], [0x62] \<mapsto> [answerThree], [0x63] \<mapsto> [answerThree],
               [0x64] \<mapsto> [answerThree], [0x65] \<mapsto> [answerThree], [0x66] \<mapsto> [answerThree],
               [0x67] \<mapsto> [answerThree], [0x68] \<mapsto> [answerThree], [0x69] \<mapsto> [answerThree]],
      queue = [0x61] # butlast tenKeys\<rparr>"
  by (simp add: repeatedPuts_def tenPuts_def tenKeys_def initialStore_def cacheData_def maxLen_def)

theorem store_invariant_witness:
  "reachable (cacheAll repeatedPuts initialStore)
   \<and> length (queue (cacheAll repeatedPuts initialStore)) = maxLen
   \<and> hd (queue (cacheAll repeatedPuts initialStore)) = [0x61]
   \<and> cache (cacheAll repeatedPuts initialStore) [0x61] = Some [answerThree]
   \<and> [0x61] \<in> set (queue (cacheData [0x6B] [] (cacheAll repeatedPuts initialStore)))
   \<and> cache (cacheData [0x6B] [] (cacheAll repeatedPuts initialStore)) [0x61] = None
   \<and> length (queue (cacheData [0x6B] [] (cacheAll repeatedPuts initialStore))) \<le> maxLen"
proof -
  have r: "reachable (cacheAll repeatedPuts initialStore :: Submission list Store)"
    by (rule reachable_cacheAll) (rule reachable.initial)
  have r': "reachable (cacheData [0x6B] [] (cacheAll repeatedPuts initialStore :: Submission list Store))"
    using store_invariant [OF r] by simp
  show ?thesis
    using r store_invariant [OF r, of "[0x6B]" "[]"] store_invariant [OF r', of "[0x6B]" "[]"]
    by (simp add: repeatedPuts_store tenKeys_def maxLen_def)
qed

section \<open>Properties of the cache key\<close>

lemma keyOf_requestA: "keyOf requestA = ascii ''{\"formId\":\"f1\",\"status\":\"finished\"}''"
  by (simp add: keyOf_def requestA_def paramsOf_def createHash_def JSON_stringify_def
      QuoteJSONString_def quoteUnit_def ascii_def)

lemma handler_Send_cached:
  assumes "handler remote req st = Some (Send reply, st')"
  shows "\<exists>cached. cache st' (keyOf req) = Some cached"
proof (cases "cache st (keyOf req)")
  case (Some cached)
  with assms show ?thesis by (simp add: handler_def Let_def)
next
  case None
  with assms show ?thesis
    by (auto simp: handler_def Let_def cacheData_cache split: option.splits sum.splits prod.splits)
qed

text \<open>
  C7. The cache key is computed from the form id and the five parameters of the Query
  Identity alone: requests that agree on them have the same key, whatever their
  \<open>filters\<close>, \<open>offset\<close> and \<open>limit\<close>, and so the same cache entry; once one of them has
  been answered with a payload, the other is answered from the cache.
\<close>

theorem cache_key_identity:
  assumes "params_formId r1 = params_formId r2"
    and "query_afterDate r1 = query_afterDate r2"
    and "query_beforeDate r1 = query_beforeDate r2"
    and "query_status r1 = query_status r2"
    and "query_includeEditLink r1 = query_includeEditLink r2"
    and "query_sort r1 = query_sort r2"
  shows "keyOf r1 = keyOf r2
    \<and> keyOf (r1\<lparr>query_filters := f, query_offset := ofs, query_limit := lmt\<rparr>) = keyOf r1
    \<and> cache st (keyOf r1) = cache st (keyOf r2)
    \<and> (\<forall>reply st'. handler remote r1 st = Some (Send reply, st') \<longrightarrow>
          (\<exists>cached. cache st' (keyOf r2) = Some cached
             \<and> handler remote' r2 st' = Some (Send (respond r2 cached), st')))"
proof -
  have k: "keyOf r1 = keyOf r2" using assms by (simp add: keyOf_def paramsOf_def)
  have u: "keyOf (r1\<lparr>query_filters := f, query_offset := ofs, query_limit := lmt\<rparr>) = keyOf r1"
    by (simp add: keyOf_def paramsOf_def)
  have h: "\<exists>cached. cache st' (keyOf r2) = Some cached
             \<and> handler remote' r2 st' = Some (Send (respond r2 cached), st')"
    if "handler remote r1 st = Some (Send reply, st')" for reply st'
  proof -
    from handler_Send_cached [OF that] k obtain cached where "cache st' (keyOf r2) = Some cached"
      by auto
    then show ?thesis by (simp add: handler_hit)
  qed
  from k u h show ?thesis by simp
qed

theorem cache_key_identity_witness:
  "keyOf requestA = keyOf requestB
   \<and> keyOf requestA = ascii ''{\"formId\":\"f1\",\"status\":\"finished\"}''
   \<and> query_filters requestA \<noteq> query_filters requestB
   \<and> query_offset requestA \<noteq> query_offset requestB
   \<and> query_limit requestA \<noteq> query_limit requestB"
proof -
  have agree: "params_formId requestA = params_formId requestB"
    "query_afterDate requestA = query_afterDate requestB"
    "query_beforeDate requestA = query_beforeDate requestB"
    "query_status requestA = query_status requestB"
    "query_includeEditLink requestA = query_includeEditLink requestB"
    "query_sort requestA = query_sort requestB"
    by (simp_all add: requestB_def)
  have same: "keyOf requestA = keyOf requestB"
    by (rule cache_key_identity [OF agree, THEN conjunct1])
  have differ: "query_filters requestA \<noteq> query_filters requestB
      \<and> query_offset requestA \<noteq> query_offset requestB
      \<and> query_limit requestA \<noteq> query_limit requestB"
    by (simp add: requestA_def requestB_def)
  from same keyOf_requestA differ show ?thesis by (intro conjI) simp_all
qed

section \<open>Properties of the window\<close>





text \<open>
  With the limit 0 the quotient is the host's quotient by zero, which is not a number of
  pages: NaN for the empty dataset and +Infinity otherwise.
\<close>

lemma window_limit_zero:
  "payload_pageCount (window (req\<lparr>query_limit := Some 0\<rparr>) D) = (if D = [] then NaN else PosInf)"
  by (cases D) (simp_all add: window_def Let_def)




section \<open>Properties of the fetch loop\<close>

lemma fetchLoop_stop:
  "\<not> num_lt (Fin (of_int offset)) t \<Longrightarrow> fetchLoop page rq acc offset t = Some (Inr acc, rq)"
  by (subst fetchLoop.simps) simp

lemma fetchLoop_fail:
  "num_lt (Fin (of_int offset)) t \<Longrightarrow> page offset = None \<Longrightarrow>
     fetchLoop page rq acc offset t = Some (Inl RequestFailed, rq @ [offset])"
  by (subst fetchLoop.simps) simp

lemma fetchLoop_step:
  "num_lt (Fin (of_int offset)) t \<Longrightarrow> page offset = Some resp \<Longrightarrow>
     fetchLoop page rq acc offset t =
       fetchLoop page (rq @ [offset]) (acc @ data_responses resp) (offset + 150)
         (data_pageCount resp)"
  by (subst fetchLoop.simps) simp

lemma offset_Suc: "150 * int (Suc j) = 150 * int j + 150"
  by simp

lemma fetchLoop_fails_at:
  assumes "j \<le> k" and "page (150 * int k) = None"
    and "\<forall>i. j \<le> i \<and> i < k \<longrightarrow>
           (\<exists>resp. page (150 * int i) = Some resp
              \<and> num_lt (Fin (of_int (150 * int (Suc i)))) (data_pageCount resp))"
    and "num_lt (Fin (of_int (150 * int j))) t"
  shows "fetchLoop page rq acc (150 * int j) t =
           Some (Inl RequestFailed, rq @ map (\<lambda>i. 150 * int i) [j..<Suc k])"
  using assms
proof (induction "k - j" arbitrary: j rq acc t)
  case 0
  then have "j = k" by simp
  with 0 show ?case by (simp add: fetchLoop_fail)
next
  case (Suc d)
  then have jk: "j < k" by simp
  with Suc.prems obtain resp where r: "page (150 * int j) = Some resp"
    and c: "num_lt (Fin (of_int (150 * int (Suc j)))) (data_pageCount resp)" by blast
  have d: "d = k - Suc j" using Suc.hyps(2) by simp
  have rest: "\<forall>i. Suc j \<le> i \<and> i < k \<longrightarrow>
           (\<exists>resp. page (150 * int i) = Some resp
              \<and> num_lt (Fin (of_int (150 * int (Suc i)))) (data_pageCount resp))"
    using Suc.prems(3) by simp
  have step: "fetchLoop page rq acc (150 * int j) t =
      fetchLoop page (rq @ [150 * int j]) (acc @ data_responses resp) (150 * int (Suc j))
        (data_pageCount resp)"
    unfolding offset_Suc
    by (rule fetchLoop_step [where page = page and offset = "150 * int j" and resp = resp])
      (fact Suc.prems(4), fact r)
  have ih: "fetchLoop page (rq @ [150 * int j]) (acc @ data_responses resp) (150 * int (Suc j))
          (data_pageCount resp) =
        Some (Inl RequestFailed, (rq @ [150 * int j]) @ map (\<lambda>i. 150 * int i) [Suc j..<Suc k])"
    using jk by (intro Suc.hyps(1) [OF d _ Suc.prems(2) rest c]) simp
  have l: "rq @ map (\<lambda>i. 150 * int i) [j..<Suc k] =
      (rq @ [150 * int j]) @ map (\<lambda>i. 150 * int i) [Suc j..<Suc k]"
    using jk upt_conv_Cons [of j "Suc k"] by simp
  show ?case by (simp only: step ih l)
qed

text \<open>
  C3. On a cache miss, when the request at the \<open>k\<close>-th offset fails (every earlier request
  having succeeded with a page count above the next offset, so that the loop reaches it),
  the handler answers \<open>{error: "Request failed!"}\<close> and nothing else, and the store, cache
  and queue, is the one it started with.
\<close>

theorem fetch_failure_aborts:
  assumes "cache st (keyOf req) = None"
    and "getPage remote req (150 * int k) = None"
    and "\<forall>i<k. \<exists>resp. getPage remote req (150 * int i) = Some resp
           \<and> num_lt (Fin (of_int (150 * int (Suc i)))) (data_pageCount resp)"
  shows "handler remote req st = Some (Json_error (ascii ''Request failed!''), st)"
proof -
  have "fetchAll (getPage remote req) =
          Some (Inl RequestFailed, [] @ map (\<lambda>i. 150 * int i) [0..<Suc k])"
    unfolding fetchAll_def
    using fetchLoop_fails_at [of 0 k "getPage remote req" PosInf "[]" "[]"] assms(2,3) by simp
  with assms(1) show ?thesis by (simp add: handler_def Let_def)
qed

theorem fetch_failure_aborts_witness:
  "cache (cacheAll tenPuts initialStore) (keyOf requestA) = None
   \<and> getPage failingRemote requestA 0 \<noteq> None
   \<and> getPage failingRemote requestA 150 = None
   \<and> handler failingRemote requestA (cacheAll tenPuts initialStore) =
       Some (Json_error (ascii ''Request failed!''), cacheAll tenPuts initialStore)"
proof -
  have miss: "cache (cacheAll tenPuts initialStore) (keyOf requestA) = None"
    by (simp add: tenPuts_store keyOf_requestA ascii_def)
  have fail: "getPage failingRemote requestA (150 * int 1) = None"
    by (simp add: getPage_def failingRemote_def)
  have before: "\<forall>i<1. \<exists>resp. getPage failingRemote requestA (150 * int i) = Some resp
           \<and> num_lt (Fin (of_int (150 * int (Suc i)))) (data_pageCount resp)"
    by (simp add: getPage_def failingRemote_def)
  from fetch_failure_aborts [OF miss fail before] miss fail show ?thesis
    by (simp add: getPage_def failingRemote_def)
qed













text \<open>The pages of the remote API, in order, make up its dataset.\<close>

lemma take_pages: "concat (map (\<lambda>i. take k (drop (k * i) D)) [0..<n]) = take (k * n) D"
proof (induction n)
  case 0
  show ?case by simp
next
  case (Suc n)
  have "take (k * Suc n) D = take (k * n) D @ take k (drop (k * n) D)"
    using take_add [of "k * n" k D] by (simp add: add.commute)
  with Suc show ?case by simp
qed

lemma concat_pagesOf: "concat (pagesOf D) = D"
proof -
  have "length D \<le> 150 * pageCountOf D" unfolding pageCountOf_def by arith
  then show ?thesis unfolding pagesOf_def take_pages by simp
qed

text \<open>
  A dataset of one page is fetched whole. A dataset of up to 150 pages is cut after its
  first page: the loop compares the offset, which counts records, with the page count.
\<close>

lemma fetch_single_page:
  assumes "length D \<le> 150"
  shows "fetchAll (remoteOf D) = Some (Inr D, [0])"
proof -
  from assms have "pageCountOf D \<le> 150" unfolding pageCountOf_def by arith
  then have "\<not> num_lt (Fin (of_int (0 + 150))) (Fin (of_nat (pageCountOf D)))" by simp
  with assms show ?thesis
    unfolding fetchAll_def
    by (subst fetchLoop.simps) (simp add: remoteOf_def fetchLoop_stop)
qed

lemma fetch_first_page_only:
  assumes "length D \<le> 22500"
  shows "fetchAll (remoteOf D) = Some (Inr (take 150 D), [0])"
proof -
  from assms have "pageCountOf D \<le> 150" unfolding pageCountOf_def by arith
  then have "\<not> num_lt (Fin (of_int (0 + 150))) (Fin (of_nat (pageCountOf D)))" by simp
  then show ?thesis
    unfolding fetchAll_def
    by (subst fetchLoop.simps) (simp add: remoteOf_def fetchLoop_stop)
qed

lemma length_dataset151: "length dataset151 = 151"
  by (simp add: dataset151_def)

text \<open>
  C1. The claim asks for the records of every page of the remote API. For the remote API
  that holds 151 submissions in two pages, the loop asks for offset 0 only and returns the
  150 records of the first page.
\<close>

theorem fetch_stops_after_first_page:
  "fetchAll (remoteOf dataset151) = Some (Inr (take 150 dataset151), [0])
   \<and> length (take 150 dataset151) = 150
   \<and> length (concat (pagesOf dataset151)) = 151
   \<and> length (pagesOf dataset151) = 2"
proof -
  have "fetchAll (remoteOf dataset151) = Some (Inr (take 150 dataset151), [0])"
    by (rule fetch_first_page_only) (simp add: length_dataset151)
  moreover have "length (take 150 dataset151) = 150"
    by (simp add: length_dataset151)
  moreover have "length (concat (pagesOf dataset151)) = 151"
    by (simp only: concat_pagesOf length_dataset151)
  moreover have "length (pagesOf dataset151) = 2"
    by (simp add: pagesOf_def pageCountOf_def length_dataset151)
  ultimately show ?thesis by (intro conjI)
qed

end
